theory Spec2Isabelle
  imports Complex_Main "HOL-Library.Sublist"
begin

section \<open>Python values used by pdf-ocr-app.py\<close>

text \<open>
  Exceptions are values. \<open>SystemExit\<close> is what \<open>sys.exit\<close> raises; it is not an
  \<open>Exception\<close> in Python's hierarchy, so \<open>except Exception\<close> does not catch it. Every
  other constructor carries the message that \<open>str(e)\<close> returns.
\<close>

datatype exn =
    SystemExit nat
  | TesseractNotFoundError string
  | ValueError string
  | OSError string
  | OtherError string

fun is_Exception :: "exn \<Rightarrow> bool" where
  "is_Exception (SystemExit _) = False"
| "is_Exception _ = True"

fun str_exn :: "exn \<Rightarrow> string" where
  "str_exn (SystemExit n) = []"
| "str_exn (TesseractNotFoundError m) = m"
| "str_exn (ValueError m) = m"
| "str_exn (OSError m) = m"
| "str_exn (OtherError m) = m"

subsection \<open>Strings\<close>

text \<open>\<open>str(n)\<close> for a non-negative integer, as the f-strings of the source format it.\<close>

definition digit_char :: "nat \<Rightarrow> char" where
  "digit_char d = char_of (48 + d)"

fun str_nat :: "nat \<Rightarrow> string" where
  "str_nat n = (if n < 10 then [digit_char n] else str_nat (n div 10) @ [digit_char (n mod 10)])"

declare str_nat.simps [simp del]

text \<open>\<open>s.lower()\<close> on ASCII text, and the substring test \<open>sub in s\<close>.\<close>

definition lower_char :: "char \<Rightarrow> char" where
  "lower_char c = (if 65 \<le> (of_char c :: nat) \<and> (of_char c :: nat) \<le> 90
                   then char_of ((of_char c :: nat) + 32) else c)"

definition lower :: "string \<Rightarrow> string" where
  "lower s = map lower_char s"

fun contains :: "string \<Rightarrow> string \<Rightarrow> bool" where
  "contains sub [] = (sub = [])"
| "contains sub (c # cs) = (prefix sub (c # cs) \<or> contains sub cs)"

text \<open>\<open>s.split(sep)\<close> for a one-character separator, and \<open>s.rfind(c)\<close> (\<open>-1\<close> when absent).\<close>

fun split_sep :: "char \<Rightarrow> string \<Rightarrow> string list" where
  "split_sep s [] = [] # []"
| "split_sep s (c # cs) =
     (if c = s then [] # split_sep s cs
      else (case split_sep s cs of [] \<Rightarrow> [c] # [] | x # xs \<Rightarrow> (c # x) # xs))"

definition rfind :: "char \<Rightarrow> string \<Rightarrow> int" where
  "rfind c s = (if c \<in> set s
                then int (length s) - 1 - int (length (takeWhile (\<lambda>x. x \<noteq> c) (rev s)))
                else - 1)"

subsection \<open>Paths (POSIX flavour of \<open>os.path\<close> and \<open>pathlib\<close>)\<close>

text \<open>
  \<open>os.path.join(a, b)\<close>: an absolute \<open>b\<close> replaces \<open>a\<close>; otherwise a separator is
  inserted unless \<open>a\<close> is empty or already ends with one.
\<close>

definition join :: "string \<Rightarrow> string \<Rightarrow> string" where
  "join a b = (if prefix ''/'' b then b
               else if a = [] \<or> last a = CHR ''/'' then a @ b
               else a @ ''/'' @ b)"

text \<open>\<open>os.path.basename(p)\<close>: everything after the last separator.\<close>

definition basename :: "string \<Rightarrow> string" where
  "basename p = drop (nat (rfind CHR ''/'' p + 1)) p"

text \<open>
  \<open>Path(p).stem\<close>: the path is split at separators, empty and \<open>.\<close> components are
  dropped, the name is the last component left (empty when there is none), and the stem
  is the name up to its last dot, unless that dot is the first or the last character.
\<close>

definition path_parts :: "string \<Rightarrow> string list" where
  "path_parts p = filter (\<lambda>x. x \<noteq> [] \<and> x \<noteq> ''.'') (split_sep CHR ''/'' p)"

definition path_name :: "string \<Rightarrow> string" where
  "path_name p = (case path_parts p of [] \<Rightarrow> [] | x # xs \<Rightarrow> last (x # xs))"

definition stem :: "string \<Rightarrow> string" where
  "stem p =
     (let name = path_name p; i = rfind CHR ''.'' name
      in if 0 < i \<and> i < int (length name) - 1 then take (nat i) name else name)"

section \<open>Files and the library routines\<close>

text \<open>
  A file holds opaque bytes (a PDF, a PNG), text, or a zip archive: the list of its
  entries, each a name and the content stored under it, in the order they were written.
  The file system maps a path to the file there. Paths are compared as strings.
\<close>

datatype 'b content =
    Blob 'b
  | Text string
  | Archive "(string \<times> 'b content) list"

type_synonym 'b fs = "string \<rightharpoonup> 'b content"

text \<open>The flag constants of \<open>cv2\<close> that the source passes.\<close>

datatype color_code = COLOR_BGR2GRAY | COLOR_BGR2RGB
datatype thresh_type = THRESH_BINARY | THRESH_BINARY_INV
datatype retr_mode = RETR_EXTERNAL | RETR_LIST
datatype approx_method = CHAIN_APPROX_NONE | CHAIN_APPROX_SIMPLE
datatype interp_flag = INTER_LINEAR | INTER_CUBIC
datatype border_mode = BORDER_CONSTANT | BORDER_REPLICATE
datatype adaptive_method = ADAPTIVE_THRESH_MEAN_C | ADAPTIVE_THRESH_GAUSSIAN_C

text \<open>The namespace that \<open>parser.parse_args()\<close> returns (\<open>args.pdf_path\<close>, \<open>args.output\<close>): the output is \<open>None\<close> by default.\<close>

record args =
  args_pdf_path :: string
  args_output :: "string option"

text \<open>
  The routines of pdf2image, PIL, OpenCV, pytesseract and argparse that the program
  calls are not part of the repository; they are parameters of the model. \<open>'pil\<close> is a
  PIL page image, \<open>'nd\<close> a numpy array (colour image, grayscale image, contour and
  rotation matrix are all arrays in Python), \<open>'b\<close> the bytes of a file. A routine that
  can raise returns \<open>exn + _\<close>. The first argument \<open>'r\<close> of a routine stands for
  whatever a run may depend on besides the routine's arguments (threads, hardware,
  library build).
  Angles, areas and thresholds are Python floats, taken here as real numbers.
\<close>

record ('r, 'pil, 'nd, 'b) lib =
  convert_from_path :: "'r \<Rightarrow> 'b fs \<Rightarrow> string option \<Rightarrow> exn + 'pil list"
  png_encode :: "'r \<Rightarrow> 'pil \<Rightarrow> exn + 'b"
  imread :: "'r \<Rightarrow> 'b content option \<Rightarrow> 'nd option"
  cvtColor :: "'r \<Rightarrow> 'nd \<Rightarrow> color_code \<Rightarrow> exn + 'nd"
  threshold :: "'r \<Rightarrow> 'nd \<Rightarrow> real \<Rightarrow> real \<Rightarrow> thresh_type \<Rightarrow> exn + (real \<times> 'nd)"
  findContours :: "'r \<Rightarrow> 'nd \<Rightarrow> retr_mode \<Rightarrow> approx_method \<Rightarrow> exn + ('nd list \<times> 'nd)"
  contourArea :: "'r \<Rightarrow> 'nd \<Rightarrow> exn + real"
  minAreaRect :: "'r \<Rightarrow> 'nd \<Rightarrow> exn + ((real \<times> real) \<times> (real \<times> real) \<times> real)"
  shape :: "'nd \<Rightarrow> nat list"
  getRotationMatrix2D :: "'r \<Rightarrow> nat \<times> nat \<Rightarrow> real \<Rightarrow> real \<Rightarrow> exn + 'nd"
  warpAffine :: "'r \<Rightarrow> 'nd \<Rightarrow> 'nd \<Rightarrow> nat \<times> nat \<Rightarrow> interp_flag \<Rightarrow> border_mode \<Rightarrow> exn + 'nd"
  adaptiveThreshold ::
    "'r \<Rightarrow> 'nd \<Rightarrow> real \<Rightarrow> adaptive_method \<Rightarrow> thresh_type \<Rightarrow> nat \<Rightarrow> real \<Rightarrow> exn + 'nd"
  image_to_string :: "'r \<Rightarrow> 'nd \<Rightarrow> exn + string"
  get_tesseract_version :: "'r \<Rightarrow> exn + string"
  parse_args :: "string list \<Rightarrow> exn + args"
  platform :: string

section \<open>The image cleaner\<close>

text \<open>
  \<open>max(xs, key=f)\<close>: \<open>ValueError\<close> on an empty sequence; otherwise the keys are computed
  from left to right and the first element with the greatest key wins (a later element
  replaces the current one only when its key is strictly greater). An exception raised
  by \<open>f\<close> propagates.
\<close>

fun max_loop :: "('a \<Rightarrow> exn + real) \<Rightarrow> 'a \<Rightarrow> real \<Rightarrow> 'a list \<Rightarrow> exn + 'a" where
  "max_loop f best k [] = Inr best"
| "max_loop f best k (x # xs) =
     (case f x of
        Inl e \<Rightarrow> Inl e
      | Inr k' \<Rightarrow> if k' > k then max_loop f x k' xs else max_loop f best k xs)"

fun py_max :: "('a \<Rightarrow> exn + real) \<Rightarrow> 'a list \<Rightarrow> exn + 'a" where
  "py_max f [] = Inl (ValueError ''max() arg is an empty sequence'')"
| "py_max f (x # xs) = (case f x of Inl e \<Rightarrow> Inl e | Inr k \<Rightarrow> max_loop f x k xs)"

text \<open>Lines 103-104: the angle of the fitted rectangle, adjusted.\<close>

definition adjust_angle :: "real \<Rightarrow> real" where
  "adjust_angle angle = (if angle < - 45 then 90 + angle else angle)"

text \<open>
  Lines 107-115: the grayscale image is rotated about \<open>(w // 2, h // 2)\<close> when the
  adjusted angle is significant, and left as it is otherwise. \<open>img.shape[:2]\<close> is unpacked
  into \<open>(h, w)\<close>, which raises \<open>ValueError\<close> unless it has two elements.
\<close>

definition rotate_if_significant ::
  "('r, 'pil, 'nd, 'b) lib \<Rightarrow> 'r \<Rightarrow> 'nd \<Rightarrow> 'nd \<Rightarrow> real \<Rightarrow> exn + 'nd" where
  "rotate_if_significant L r img gray angle =
     (if \<bar>angle\<bar> > 0.5 then
        (case take 2 (shape L img) of
           [h, w] \<Rightarrow>
             (case getRotationMatrix2D L r (w div 2, h div 2) angle 1.0 of
                Inl e \<Rightarrow> Inl e
              | Inr M \<Rightarrow> warpAffine L r gray M (w, h) INTER_CUBIC BORDER_REPLICATE)
         | _ \<Rightarrow> Inl (ValueError ''not enough values to unpack''))
      else Inr gray)"

text \<open>
  Lines 83-117: the image handed to the adaptive threshold. \<open>cv2.imread\<close> returns
  \<open>None\<close> for a file it cannot read, and \<open>cv2.cvtColor\<close> raises on \<open>None\<close>.
\<close>

definition deskew :: "('r, 'pil, 'nd, 'b) lib \<Rightarrow> 'r \<Rightarrow> 'b fs \<Rightarrow> string \<Rightarrow> exn + 'nd" where
  "deskew L r fs image_path =
     (case imread L r (fs image_path) of
        None \<Rightarrow> Inl (OtherError ''cvtColor: empty source image'')
      | Some img \<Rightarrow>
      (case cvtColor L r img COLOR_BGR2GRAY of
        Inl e \<Rightarrow> Inl e
      | Inr gray \<Rightarrow>
      (case threshold L r gray 128 255 THRESH_BINARY_INV of
        Inl e \<Rightarrow> Inl e
      | Inr (_, binary) \<Rightarrow>
      (case findContours L r binary RETR_LIST CHAIN_APPROX_SIMPLE of
        Inl e \<Rightarrow> Inl e
      | Inr (contours, _) \<Rightarrow>
          if contours \<noteq> [] then
            (case py_max (contourArea L r) contours of
               Inl e \<Rightarrow> Inl e
             | Inr largest_contour \<Rightarrow>
            (case minAreaRect L r largest_contour of
               Inl e \<Rightarrow> Inl e
             | Inr (_, _, angle) \<Rightarrow>
                 rotate_if_significant L r img gray (adjust_angle angle)))
          else Inr gray))))"

text \<open>Lines 78-125.\<close>

definition clean_and_deskew ::
  "('r, 'pil, 'nd, 'b) lib \<Rightarrow> 'r \<Rightarrow> 'b fs \<Rightarrow> string \<Rightarrow> exn + 'nd" where
  "clean_and_deskew L r fs image_path =
     (case deskew L r fs image_path of
        Inl e \<Rightarrow> Inl e
      | Inr deskewed \<Rightarrow>
          adaptiveThreshold L r deskewed 255 ADAPTIVE_THRESH_GAUSSIAN_C THRESH_BINARY 11 2)"

section \<open>Effects: files and standard output\<close>

text \<open>
  The state the program acts on: the files, which paths can be opened for writing, which
  writes into an archive fail, and the lines printed so far. \<open>zip_fault w path name c\<close>
  is the exception, if any, that \<open>zipf.write\<close> raises when it is to store the content
  \<open>c\<close> under \<open>name\<close> in the archive at \<open>path\<close> (a full disk, an I/O error, a
  timestamp that the zip format cannot hold).
\<close>

record 'b world =
  files :: "'b fs"
  writable :: "string \<Rightarrow> bool"
  zip_fault :: "string \<Rightarrow> string \<Rightarrow> 'b content \<Rightarrow> exn option"
  stdout :: "string list"

definition py_print :: "string \<Rightarrow> 'b world \<Rightarrow> 'b world" where
  "py_print line w = w\<lparr>stdout := stdout w @ [line]\<rparr>"

text \<open>\<open>open(path, "w")\<close>, write, close: \<open>OSError\<close> when the path cannot be opened.\<close>

definition write_file :: "string \<Rightarrow> 'b content \<Rightarrow> 'b world \<Rightarrow> (exn + unit) \<times> 'b world" where
  "write_file path c w =
     (if writable w path then (Inr (), w\<lparr>files := (files w)(path \<mapsto> c)\<rparr>)
      else (Inl (OSError ''cannot open for writing''), w))"

text \<open>
  \<open>img.save(path)\<close>: PIL opens the file, encodes the image into it, and removes the
  file again when the encoder raises.
\<close>

definition save ::
  "('r, 'pil, 'nd, 'b) lib \<Rightarrow> 'r \<Rightarrow> 'pil \<Rightarrow> string \<Rightarrow> 'b world \<Rightarrow> (exn + unit) \<times> 'b world" where
  "save L r img path w =
     (if \<not> writable w path then (Inl (OSError ''cannot open for writing''), w)
      else case png_encode L r img of
             Inl e \<Rightarrow> (Inl e, w\<lparr>files := (files w)(path := None)\<rparr>)
           | Inr b \<Rightarrow> (Inr (), w\<lparr>files := (files w)(path \<mapsto> Blob b)\<rparr>))"

text \<open>
  \<open>tempfile.TemporaryDirectory()\<close>: the directory is a fresh one chosen by the
  system, a parameter \<open>temp_dir\<close> of the model; leaving the \<open>with\<close> block, normally
  or by an exception, removes everything below it.
\<close>

definition in_dir :: "string \<Rightarrow> string \<Rightarrow> bool" where
  "in_dir d p = prefix (join d []) p"

definition cleanup :: "string \<Rightarrow> 'b world \<Rightarrow> 'b world" where
  "cleanup temp_dir w = w\<lparr>files := (\<lambda>p. if in_dir temp_dir p then None else files w p)\<rparr>"

section \<open>The archiver\<close>

text \<open>
  Lines 128-134. \<open>ZipFile(path, 'w')\<close> creates or truncates the file when it is
  opened; \<open>zipf.write(file_path, arcname)\<close> reads the file and appends an entry, and
  raises when the file is missing or the write fails; leaving the \<open>with\<close> block closes
  the archive with the entries written so far, also when a \<open>write\<close> raised. So a run
  that fails here leaves a truncated archive at the output path.
\<close>

fun zip_entries ::
  "(string \<Rightarrow> 'b content \<Rightarrow> exn option) \<Rightarrow> 'b fs \<Rightarrow> string list
     \<Rightarrow> (string \<times> 'b content) list
     \<Rightarrow> (exn + unit) \<times> (string \<times> 'b content) list" where
  "zip_entries fault fs [] entries = (Inr (), entries)"
| "zip_entries fault fs (file_path # rest) entries =
     (case fs file_path of
        None \<Rightarrow> (Inl (OSError ''No such file or directory''), entries)
      | Some c \<Rightarrow>
          (case fault (basename file_path) c of
             Some e \<Rightarrow> (Inl e, entries)
           | None \<Rightarrow> zip_entries fault fs rest (entries @ [(basename file_path, c)])))"

definition create_zip :: "string list \<Rightarrow> string \<Rightarrow> 'b world \<Rightarrow> (exn + unit) \<times> 'b world" where
  "create_zip file_paths output_zip_path w =
     (if \<not> writable w output_zip_path then (Inl (OSError ''cannot open for writing''), w)
      else
        (let w1 = w\<lparr>files := (files w)(output_zip_path \<mapsto> Archive [])\<rparr>
         in case zip_entries (zip_fault w output_zip_path) (files w1) file_paths [] of
              (res, entries) \<Rightarrow>
                (res, w1\<lparr>files := (files w1)(output_zip_path \<mapsto> Archive entries)\<rparr>)))"

section \<open>The pipeline\<close>

text \<open>The names of the per-page files in the temporary directory (lines 57 and 67).\<close>

definition page_file :: "string \<Rightarrow> nat \<Rightarrow> string \<Rightarrow> string" where
  "page_file temp_dir page_num ext = join temp_dir (''page_'' @ str_nat page_num @ ext)"

text \<open>
  Lines 52-70: the loop over \<open>enumerate(images)\<close>; \<open>i\<close> is the index of the first
  image left, \<open>len_images\<close> is \<open>len(images)\<close>, \<open>text_files\<close> the paths collected so far.
\<close>

fun page_loop ::
  "('r, 'pil, 'nd, 'b) lib \<Rightarrow> 'r \<Rightarrow> string \<Rightarrow> nat \<Rightarrow> nat \<Rightarrow> 'pil list \<Rightarrow> string list
     \<Rightarrow> 'b world \<Rightarrow> (exn + string list) \<times> 'b world" where
  "page_loop L r temp_dir len_images i [] text_files w = (Inr text_files, w)"
| "page_loop L r temp_dir len_images i (img # rest) text_files w =
     (let page_num = i + 1;
          w1 = py_print (''Processing page '' @ str_nat page_num @ ''/'' @ str_nat len_images) w;
          img_path = page_file temp_dir page_num ''.png''
      in case save L r img img_path w1 of
           (Inl e, w2) \<Rightarrow> (Inl e, w2)
         | (Inr _, w2) \<Rightarrow>
         (case clean_and_deskew L r (files w2) img_path of
            Inl e \<Rightarrow> (Inl e, w2)
          | Inr cleaned_img \<Rightarrow>
         (case image_to_string L r cleaned_img of
            Inl e \<Rightarrow> (Inl e, w2)
          | Inr text \<Rightarrow>
         (let text_file_path = page_file temp_dir page_num ''.txt''
          in case write_file text_file_path (Text text) w2 of
               (Inl e, w3) \<Rightarrow> (Inl e, w3)
             | (Inr _, w3) \<Rightarrow>
                 page_loop L r temp_dir len_images (i + 1) rest (text_files @ [text_file_path]) w3))))"

text \<open>Lines 36-75.\<close>

definition process_pdf ::
  "('r, 'pil, 'nd, 'b) lib \<Rightarrow> 'r \<Rightarrow> string \<Rightarrow> string \<Rightarrow> string \<Rightarrow> 'b world
     \<Rightarrow> (exn + unit) \<times> 'b world" where
  "process_pdf L r temp_dir pdf_path output_zip_path w =
     (let w1 = py_print (''Converting PDF: '' @ pdf_path) w
      in case (case convert_from_path L r (files w1) (Some pdf_path) of
                 Inl e \<Rightarrow> (Inl e, w1)
               | Inr images \<Rightarrow>
                   (case page_loop L r temp_dir (length images) 0 images [] w1 of
                      (Inl e, w2) \<Rightarrow> (Inl e, w2)
                    | (Inr text_files, w2) \<Rightarrow> create_zip text_files output_zip_path w2)) of
           (Inl e, w3) \<Rightarrow> (Inl e, cleanup temp_dir w3)
         | (Inr _, w3) \<Rightarrow>
             (Inr (), py_print (''OCR processing complete. Results saved to '' @ output_zip_path)
                        (cleanup temp_dir w3)))"

section \<open>Command line\<close>

text \<open>
  Lines 181-183: the output path handed to \<open>process_pdf\<close>. Without \<open>--output\<close> it is
  the stem of the input path followed by \<open>_ocr.zip\<close>.
\<close>

definition resolve_output :: "args \<Rightarrow> string" where
  "resolve_output a =
     (case args_output a of
        None \<Rightarrow> stem (args_pdf_path a) @ ''_ocr.zip''
      | Some out \<Rightarrow> out)"


text \<open>Lines 137-144.\<close>

definition check_tesseract_installed :: "('r, 'pil, 'nd, 'b) lib \<Rightarrow> 'r \<Rightarrow> exn + bool" where
  "check_tesseract_installed L r =
     (case get_tesseract_version L r of
        Inr _ \<Rightarrow> Inr True
      | Inl (TesseractNotFoundError _) \<Rightarrow> Inr False
      | Inl e \<Rightarrow> Inl e)"

text \<open>Lines 157-168: the probe call \<open>convert_from_path(None)\<close>.\<close>

definition poppler_check ::
  "('r, 'pil, 'nd, 'b) lib \<Rightarrow> 'r \<Rightarrow> 'b world \<Rightarrow> (exn + unit) \<times> 'b world" where
  "poppler_check L r w =
     (case convert_from_path L r (files w) None of
        Inr _ \<Rightarrow> (Inr (), w)
      | Inl e \<Rightarrow>
          if \<not> is_Exception e then (Inl e, w)
          else if contains ''poppler'' (lower (str_exn e)) then
            (Inl (SystemExit 1),
             py_print
               (if prefix ''win'' (platform L) then
                  ''Download from: https://github.com/oschwartz10612/poppler-windows/releases''
                else if prefix ''darwin'' (platform L) then ''Install with: brew install poppler''
                else ''Install with: apt-get install poppler-utils'')
               (py_print ''ERROR: Poppler is not installed (required by pdf2image).'' w))
          else (Inr (), w))"

text \<open>
  Lines 147-186. The result is how the process ends: \<open>Inr ()\<close> is a normal end,
  \<open>Inl (SystemExit n)\<close> is \<open>sys.exit(n)\<close>, any other exception is uncaught.
\<close>

definition main ::
  "('r, 'pil, 'nd, 'b) lib \<Rightarrow> 'r \<Rightarrow> string \<Rightarrow> string list \<Rightarrow> 'b world
     \<Rightarrow> (exn + unit) \<times> 'b world" where
  "main L r temp_dir argv w =
     (case check_tesseract_installed L r of
        Inl e \<Rightarrow> (Inl e, w)
      | Inr installed \<Rightarrow>
          if \<not> installed then
            (Inl (SystemExit 1),
             py_print ''Please install Tesseract: https://github.com/tesseract-ocr/tesseract''
               (py_print ''ERROR: Tesseract OCR is not installed or not in PATH.'' w))
          else
            (case poppler_check L r w of
               (Inl e, w1) \<Rightarrow> (Inl e, w1)
             | (Inr _, w1) \<Rightarrow>
                 (case parse_args L argv of
                    Inl e \<Rightarrow> (Inl e, w1)
                  | Inr a \<Rightarrow> process_pdf L r temp_dir (args_pdf_path a) (resolve_output a) w1)))"

text \<open>The exit status of the process: an uncaught exception ends it with status 1.\<close>

fun exit_status :: "exn + unit \<Rightarrow> nat" where
  "exit_status (Inr _) = 0"
| "exit_status (Inl (SystemExit n)) = n"
| "exit_status (Inl _) = 1"

section \<open>Notions used to state the properties\<close>

text \<open>
  The text of one page of the document: what the cleaner and the OCR engine make of the
  page image once it is stored as a PNG file (the file system here holds that PNG under
  every path).
\<close>

definition page_text :: "('r, 'pil, 'nd, 'b) lib \<Rightarrow> 'r \<Rightarrow> 'pil \<Rightarrow> exn + string" where
  "page_text L r img =
     (case png_encode L r img of
        Inl e \<Rightarrow> Inl e
      | Inr b \<Rightarrow>
          (case clean_and_deskew L r (\<lambda>p. Some (Blob b)) [] of
             Inl e \<Rightarrow> Inl e
           | Inr cleaned_img \<Rightarrow> image_to_string L r cleaned_img))"

text \<open>
  The text files that the loop writes for the pages \<open>i + 1\<close> to \<open>i + k\<close>, and the
  entry names \<open>page_1.txt\<close> to \<open>page_n.txt\<close>.
\<close>

definition page_txts :: "string \<Rightarrow> nat \<Rightarrow> nat \<Rightarrow> string list" where
  "page_txts d i k = map (\<lambda>j. page_file d j ''.txt'') [Suc i..<Suc i + k]"

definition entry_names :: "nat \<Rightarrow> string list" where
  "entry_names n = map (\<lambda>j. ''page_'' @ str_nat j @ ''.txt'') [1..<Suc n]"

section \<open>A small library to run the model on\<close>

text \<open>
  A page image is a pair of its skew angle and the text on it; a PDF is the list of its
  pages and a PNG a one-page list. A page with no text has no contours; rotating removes
  the angle of the rotation matrix from the skew; OCR reads the text off the page and
  fails on a page that shows \<open>#\<close>.
\<close>

type_synonym demo_img = "real \<times> string"

definition demo_lib :: "(bool, demo_img, demo_img, demo_img list) lib" where
  "demo_lib =
     \<lparr>convert_from_path = (\<lambda>r fs p.
          case p of
            None \<Rightarrow> Inl (OtherError ''expected str, bytes or os.PathLike object'')
          | Some q \<Rightarrow> (case fs q of
                         Some (Blob pages) \<Rightarrow> Inr pages
                       | _ \<Rightarrow> Inl (OtherError ''Unable to get page count.''))),
      png_encode = (\<lambda>r img. Inr [img]),
      imread = (\<lambda>r f. case f of Some (Blob [img]) \<Rightarrow> Some img | _ \<Rightarrow> None),
      cvtColor = (\<lambda>r img code. Inr img),
      threshold = (\<lambda>r g t m ty. Inr (t, g)),
      findContours = (\<lambda>r b mode method. Inr (if snd b = [] then [] else [b], b)),
      contourArea = (\<lambda>r c. Inr (real (length (snd c)))),
      minAreaRect = (\<lambda>r c. Inr ((0, 0), (0, 0), fst c)),
      shape = (\<lambda>img. [100, 80, 3]),
      getRotationMatrix2D = (\<lambda>r center angle scale. Inr (angle, [])),
      warpAffine = (\<lambda>r g M size flags border. Inr (fst g - fst M, snd g)),
      adaptiveThreshold = (\<lambda>r g maxval method ty block c. Inr g),
      image_to_string = (\<lambda>r img.
          if snd img = ''#'' then Inl (OtherError ''tesseract failed'') else Inr (snd img)),
      get_tesseract_version = (\<lambda>r. Inr ''5.3.0''),
      parse_args = (\<lambda>argv. case argv of
                        [p] \<Rightarrow> Inr \<lparr>args_pdf_path = p, args_output = None\<rparr>
                      | [p, f, out] \<Rightarrow>
                          if f = ''-o'' \<or> f = ''--output''
                          then Inr \<lparr>args_pdf_path = p, args_output = Some out\<rparr>
                          else Inl (SystemExit 2)
                      | _ \<Rightarrow> Inl (SystemExit 2)),
      platform = ''linux''\<rparr>"

definition demo_world :: "demo_img list world" where
  "demo_world =
     \<lparr>files = [''doc.pdf'' \<mapsto> Blob [(- 10, ''first''), (0, []), (- 60, ''third'')]],
      writable = (\<lambda>p. True),
      zip_fault = (\<lambda>p name c. None),
      stdout = []\<rparr>"

text \<open>The same library on a host where the Tesseract binary is missing.\<close>

definition demo_lib_no_tesseract :: "(bool, demo_img, demo_img, demo_img list) lib" where
  "demo_lib_no_tesseract =
     demo_lib\<lparr>get_tesseract_version :=
       (\<lambda>r. Inl (TesseractNotFoundError ''tesseract is not installed or it is not in your PATH''))\<rparr>"

text \<open>A world whose PDF has no pages.\<close>

definition empty_pdf_world :: "demo_img list world" where
  "empty_pdf_world =
     \<lparr>files = [''empty.pdf'' \<mapsto> Blob []],
      writable = (\<lambda>p. True),
      zip_fault = (\<lambda>p name c. None),
      stdout = []\<rparr>"

text \<open>A world whose PDF has a second page that the OCR engine rejects.\<close>

definition bad_page_world :: "demo_img list world" where
  "bad_page_world =
     \<lparr>files = [''bad.pdf'' \<mapsto> Blob [(0, ''fine''), (2, ''#''), (0, ''never reached'')]],
      writable = (\<lambda>p. True),
      zip_fault = (\<lambda>p name c. None),
      stdout = []\<rparr>"

text \<open>A world whose disk is full when the second entry of an archive is written.\<close>

definition full_disk_world :: "demo_img list world" where
  "full_disk_world =
     \<lparr>files = [''doc.pdf'' \<mapsto> Blob [(- 10, ''first''), (0, []), (- 60, ''third'')]],
      writable = (\<lambda>p. True),
      zip_fault = (\<lambda>p name c.
          if name = ''page_2.txt'' then Some (OSError ''No space left on device'') else None),
      stdout = []\<rparr>"

section \<open>Default output path\<close>

lemma split_sep_not_Nil: "split_sep s xs \<noteq> []"
  by (induction xs) (auto split: list.splits)

lemma split_sep_no_sep: "s \<notin> set xs \<Longrightarrow> split_sep s xs = [xs]"
  by (induction xs) auto

lemma split_sep_append: "split_sep s (xs @ s # ys) = split_sep s xs @ split_sep s ys"
proof (induction xs)
  case Nil
  then show ?case by simp
next
  case (Cons x xs)
  then show ?case
    by (cases "split_sep s xs") (auto simp: split_sep_not_Nil)
qed

lemma rfind_last_occurrence: "c \<notin> set ys \<Longrightarrow> rfind c (xs @ c # ys) = int (length xs)"
proof -
  assume a: "c \<notin> set ys"
  then have "takeWhile (\<lambda>x. x \<noteq> c) (rev ys @ c # rev xs) = rev ys"
    by (auto simp: takeWhile_tail)
  then show ?thesis by (simp add: rfind_def)
qed

lemma path_name_last:
  "path_parts p \<noteq> [] \<Longrightarrow> path_name p = last (path_parts p)"
  by (cases "path_parts p") (simp_all add: path_name_def)

lemma path_name_last_component:
  assumes "d = [] \<or> last d = CHR ''/''" "name \<noteq> []" "name \<noteq> ''.''" "CHR ''/'' \<notin> set name"
  shows "path_name (d @ name) = name"
proof (cases "d = []")
  case True
  with assms show ?thesis
    by (simp add: path_name_def path_parts_def split_sep_no_sep)
next
  case False
  with assms(1) obtain d' where d: "d = d' @ ''/''"
    by (metis append_butlast_last_id)
  have "split_sep CHR ''/'' (d @ name) = split_sep CHR ''/'' d' @ [name]"
    using assms(4) by (simp add: d split_sep_append split_sep_no_sep)
  then have "path_parts (d @ name) = path_parts d' @ [name]"
    using assms(2,3) by (simp add: path_parts_def)
  then show ?thesis
    by (simp add: path_name_last)
qed

lemma stem_base_ext:
  assumes "d = [] \<or> last d = CHR ''/''" "base \<noteq> []" "CHR ''/'' \<notin> set base"
    and "ext \<noteq> []" "CHR ''/'' \<notin> set ext" "CHR ''.'' \<notin> set ext"
  shows "stem (d @ base @ ''.'' @ ext) = base"
proof -
  let ?name = "base @ ''.'' @ ext"
  have "?name \<noteq> ''.''" using assms(2) by (cases base) auto
  then have n: "path_name (d @ ?name) = ?name"
    using assms by (intro path_name_last_component) auto
  have r: "rfind CHR ''.'' ?name = int (length base)"
    using rfind_last_occurrence [OF assms(6), of base] by simp
  show ?thesis
    using assms(2,4) by (simp add: stem_def n r del: append.simps append_assoc) 
qed

text \<open>
  Claim C1 says that without \<open>--output\<close> the output path is the input path with its
  extension replaced by \<open>_ocr.zip\<close>, so that \<open>dir/doc.pdf\<close> gives \<open>dir/doc_ocr.zip\<close>.
  The program takes \<open>Path(pdf_path).stem\<close>, which drops the directory: for that input
  the output path is \<open>doc_ocr.zip\<close>.
\<close>

theorem resolve_output_keeps_directory_counterexample:
  "resolve_output \<lparr>args_pdf_path = ''dir/doc.pdf'', args_output = None\<rparr> \<noteq> ''dir/doc_ocr.zip''"
  by (simp add: resolve_output_def stem_def path_name_def path_parts_def rfind_def)

text \<open>
  Claim C1, amended: without \<open>--output\<close>, for an input path whose last component is
  \<open>base.ext\<close> (a non-empty base, a non-empty extension without a dot), whatever
  directory part \<open>d\<close> precedes it, the output path is \<open>base_ocr.zip\<close>, with no
  directory part.
\<close>

theorem resolve_output_default:
  assumes "d = [] \<or> last d = CHR ''/''" "base \<noteq> []" "CHR ''/'' \<notin> set base"
    and "ext \<noteq> []" "CHR ''/'' \<notin> set ext" "CHR ''.'' \<notin> set ext"
  shows "resolve_output \<lparr>args_pdf_path = d @ base @ ''.'' @ ext, args_output = None\<rparr>
           = base @ ''_ocr.zip''"
  using stem_base_ext [OF assms] by (simp add: resolve_output_def)

text \<open>The amended claim at \<open>dir/doc.pdf\<close>.\<close>

theorem resolve_output_default_witness:
  "resolve_output \<lparr>args_pdf_path = ''dir/doc.pdf'', args_output = None\<rparr> = ''doc_ocr.zip''"
  using resolve_output_default [of "''dir/''" "''doc''" "''pdf''"] by simp

section \<open>The image cleaner\<close>

text \<open>
  Claim C2: the adjusted angle is \<open>90 + a\<close> when the rectangle angle \<open>a\<close> is below
  \<open>-45\<close> and \<open>a\<close> otherwise; \<open>-60\<close> becomes \<open>30\<close> and \<open>-10\<close> stays \<open>-10\<close>.
\<close>

theorem adjust_angle_cases:
  "(a < - 45 \<longrightarrow> adjust_angle a = 90 + a) \<and> (\<not> a < - 45 \<longrightarrow> adjust_angle a = a)
     \<and> adjust_angle (- 60) = 30 \<and> adjust_angle (- 10) = - 10"
  by (simp add: adjust_angle_def)

text \<open>Both cases of C2, at \<open>-50\<close> and at the boundary \<open>-45\<close>.\<close>

theorem adjust_angle_cases_witness:
  "(- 50 :: real) < - 45 \<and> adjust_angle (- 50) = 40
     \<and> \<not> (- 45 :: real) < - 45 \<and> adjust_angle (- 45) = - 45"
  using adjust_angle_cases [of "- 50"] adjust_angle_cases [of "- 45"] by simp

text \<open>
  Claim C3: when the image yields at least one contour, the grayscale image is rotated
  about \<open>(w // 2, h // 2)\<close> by the adjusted angle, with cubic interpolation and
  replicated borders, exactly when the absolute adjusted angle exceeds \<open>0.5\<close>; otherwise
  the adaptive threshold receives the grayscale image as it is.
\<close>

theorem deskew_rotation:
  assumes "imread L r (fs p) = Some img"
    and "cvtColor L r img COLOR_BGR2GRAY = Inr gray"
    and "threshold L r gray 128 255 THRESH_BINARY_INV = Inr (t, binary)"
    and "findContours L r binary RETR_LIST CHAIN_APPROX_SIMPLE = Inr (contours, hier)"
    and "contours \<noteq> []"
    and "py_max (contourArea L r) contours = Inr largest"
    and "minAreaRect L r largest = Inr (ctr, sz, a)"
  shows "(\<bar>adjust_angle a\<bar> > 0.5 \<longrightarrow>
            (\<forall>h w M rotated.
               take 2 (shape L img) = [h, w] \<longrightarrow>
               getRotationMatrix2D L r (w div 2, h div 2) (adjust_angle a) 1 = Inr M \<longrightarrow>
               warpAffine L r gray M (w, h) INTER_CUBIC BORDER_REPLICATE = Inr rotated \<longrightarrow>
               deskew L r fs p = Inr rotated \<and>
               clean_and_deskew L r fs p =
                 adaptiveThreshold L r rotated 255 ADAPTIVE_THRESH_GAUSSIAN_C THRESH_BINARY 11 2))
       \<and> (\<not> \<bar>adjust_angle a\<bar> > 0.5 \<longrightarrow>
            deskew L r fs p = Inr gray \<and>
            clean_and_deskew L r fs p =
              adaptiveThreshold L r gray 255 ADAPTIVE_THRESH_GAUSSIAN_C THRESH_BINARY 11 2)"
proof -
  have d: "deskew L r fs p = rotate_if_significant L r img gray (adjust_angle a)"
    using assms by (simp add: deskew_def)
  show ?thesis
    by (simp add: d clean_and_deskew_def rotate_if_significant_def)
qed

text \<open>C3 on a page skewed by \<open>-10\<close> degrees (rotated) and on one skewed by \<open>0.25\<close> (left alone).\<close>

theorem deskew_rotation_witness:
  "deskew demo_lib True [''p'' \<mapsto> Blob [(- 10, ''first'')]] ''p'' = Inr (0, ''first'')
   \<and> clean_and_deskew demo_lib True [''p'' \<mapsto> Blob [(- 10, ''first'')]] ''p'' = Inr (0, ''first'')
   \<and> deskew demo_lib True [''p'' \<mapsto> Blob [(0.25, ''first'')]] ''p'' = Inr (0.25, ''first'')"
  using deskew_rotation [of demo_lib True "[''p'' \<mapsto> Blob [(- 10, ''first'')]]" "''p''"
      "(- 10, ''first'')" "(- 10, ''first'')" 128 "(- 10, ''first'')" "[(- 10, ''first'')]"
      "(- 10, ''first'')" "(- 10, ''first'')" "(0, 0)" "(0, 0)" "- 10"]
    deskew_rotation [of demo_lib True "[''p'' \<mapsto> Blob [(0.25, ''first'')]]" "''p''"
      "(0.25, ''first'')" "(0.25, ''first'')" 128 "(0.25, ''first'')" "[(0.25, ''first'')]"
      "(0.25, ''first'')" "(0.25, ''first'')" "(0, 0)" "(0, 0)" "0.25"]
  by (simp add: demo_lib_def adjust_angle_def)

text \<open>
  Claim C4: when the inverted binarization at threshold 128 yields no contours, nothing
  is rotated and no error is raised on the way: the result is the adaptive Gaussian
  threshold (block size 11, offset 2) of the unrotated grayscale image.
\<close>

theorem no_contours_skips_deskew:
  assumes "imread L r (fs p) = Some img"
    and "cvtColor L r img COLOR_BGR2GRAY = Inr gray"
    and "threshold L r gray 128 255 THRESH_BINARY_INV = Inr (t, binary)"
    and "findContours L r binary RETR_LIST CHAIN_APPROX_SIMPLE = Inr ([], hier)"
  shows "deskew L r fs p = Inr gray \<and>
         clean_and_deskew L r fs p =
           adaptiveThreshold L r gray 255 ADAPTIVE_THRESH_GAUSSIAN_C THRESH_BINARY 11 2"
  using assms by (simp add: clean_and_deskew_def deskew_def)

text \<open>C4 on a blank page.\<close>

theorem no_contours_skips_deskew_witness:
  "deskew demo_lib True [''p'' \<mapsto> Blob [(3, [])]] ''p'' = Inr (3, [])
   \<and> clean_and_deskew demo_lib True [''p'' \<mapsto> Blob [(3, [])]] ''p'' = Inr (3, [])"
  using no_contours_skips_deskew [of demo_lib True "[''p'' \<mapsto> Blob [(3, [])]]" "''p''"
      "(3, [])" "(3, [])" 128 "(3, [])" "(3, [])"]
  by (simp add: demo_lib_def)

lemma clean_and_deskew_cong:
  "fs p = fs' p' \<Longrightarrow> clean_and_deskew L r fs p = clean_and_deskew L r fs' p'"
  by (simp add: clean_and_deskew_def deskew_def)

section \<open>Start-up check\<close>

text \<open>
  Claim C8: when the OCR engine is not installed, the program prints the two lines of
  the installation hint and exits with status 1, whatever its arguments; nothing else is
  printed and no file is created or changed.
\<close>

theorem missing_tesseract_exits:
  assumes "get_tesseract_version L r = Inl (TesseractNotFoundError m)"
  shows "main L r temp_dir argv w =
           (Inl (SystemExit 1),
            w\<lparr>stdout := stdout w @
                 [''ERROR: Tesseract OCR is not installed or not in PATH.'',
                  ''Please install Tesseract: https://github.com/tesseract-ocr/tesseract'']\<rparr>)
         \<and> exit_status (fst (main L r temp_dir argv w)) = 1
         \<and> files (snd (main L r temp_dir argv w)) = files w"
  using assms by (simp add: main_def check_tesseract_installed_def py_print_def)

text \<open>C8 on a host without Tesseract, called on a valid three-page PDF.\<close>

theorem missing_tesseract_exits_witness:
  "exit_status (fst (main demo_lib_no_tesseract True ''/tmp/t'' [''doc.pdf''] demo_world)) = 1
   \<and> files (snd (main demo_lib_no_tesseract True ''/tmp/t'' [''doc.pdf''] demo_world)) ''doc_ocr.zip'' = None
   \<and> stdout (snd (main demo_lib_no_tesseract True ''/tmp/t'' [''doc.pdf''] demo_world)) =
       [''ERROR: Tesseract OCR is not installed or not in PATH.'',
        ''Please install Tesseract: https://github.com/tesseract-ocr/tesseract'']"
  using missing_tesseract_exits [of demo_lib_no_tesseract True
      "''tesseract is not installed or it is not in your PATH''" "''/tmp/t''" "[''doc.pdf'']" demo_world]
  by (simp add: demo_lib_no_tesseract_def demo_world_def)

section \<open>The pipeline\<close>

lemma files_py_print [simp]: "files (py_print s w) = files w"
  and writable_py_print [simp]: "writable (py_print s w) = writable w"
  and zip_fault_py_print [simp]: "zip_fault (py_print s w) = zip_fault w"
  by (simp_all add: py_print_def)

lemma files_cleanup: "files (cleanup d w) p = (if in_dir d p then None else files w p)"
  by (simp add: cleanup_def)

text \<open>
  Claim C9: for a PDF that rasterizes to zero pages, with a writable output path outside
  the temporary directory, the run succeeds and leaves an archive with no entries at the
  output path.
\<close>

theorem zero_pages_empty_archive:
  assumes "convert_from_path L r (files w) (Some pdf_path) = Inr []"
    and "writable w output_zip_path"
    and "\<not> in_dir temp_dir output_zip_path"
  shows "fst (process_pdf L r temp_dir pdf_path output_zip_path w) = Inr ()
         \<and> files (snd (process_pdf L r temp_dir pdf_path output_zip_path w)) output_zip_path
             = Some (Archive [])"
  using assms by (simp add: process_pdf_def create_zip_def files_cleanup)

text \<open>C9 on a PDF without pages.\<close>

theorem zero_pages_empty_archive_witness:
  "fst (process_pdf demo_lib True ''/tmp/t'' ''empty.pdf'' ''out.zip'' empty_pdf_world) = Inr ()
   \<and> files (snd (process_pdf demo_lib True ''/tmp/t'' ''empty.pdf'' ''out.zip'' empty_pdf_world))
        ''out.zip'' = Some (Archive [])"
  using zero_pages_empty_archive [of demo_lib True empty_pdf_world "''empty.pdf''" "''out.zip''" "''/tmp/t''"]
  by (simp add: demo_lib_def empty_pdf_world_def in_dir_def join_def)

section \<open>Page files and their names\<close>

subsection \<open>Decimal numerals\<close>

lemma of_char_digit_char: "d < 10 \<Longrightarrow> (of_char (digit_char d) :: nat) = 48 + d"
proof -
  assume "d < 10"
  then have "(48 + d) mod 256 = 48 + d" by simp
  then show ?thesis by (simp only: digit_char_def of_char_of)
qed

lemma digit_char_inj:
  assumes "d < 10" and "d' < 10" and "digit_char d = digit_char d'"
  shows "d = d'"
proof -
  from assms(3) have "(of_char (digit_char d) :: nat) = of_char (digit_char d')"
    by (rule arg_cong)
  then have "48 + d = 48 + d'"
    unfolding of_char_digit_char [OF assms(1)] of_char_digit_char [OF assms(2)] .
  then show ?thesis by (rule add_left_imp_eq)
qed

lemma digit_char_not_slash: "d < 10 \<Longrightarrow> CHR ''/'' \<noteq> digit_char d"
proof
  assume "d < 10" and "CHR ''/'' = digit_char d"
  then have "(of_char (CHR ''/'') :: nat) = 48 + d"
    by (simp only: of_char_digit_char)
  then show False by simp
qed

lemma str_nat_not_Nil: "str_nat n \<noteq> []"
  by (subst str_nat.simps) simp

lemma str_nat_inj: "str_nat n = str_nat m \<Longrightarrow> n = m"
proof (induction n arbitrary: m rule: str_nat.induct)
  case (1 n)
  show ?case
  proof (cases "n < 10")
    case n: True
    show ?thesis
    proof (cases "m < 10")
      case True
      with n "1.prems" show ?thesis
        by (simp add: str_nat.simps [of n] str_nat.simps [of m] digit_char_inj)
    next
      case False
      with n "1.prems" show ?thesis
        by (simp add: str_nat.simps [of n] str_nat.simps [of m] str_nat_not_Nil [symmetric])
    qed
  next
    case n: False
    show ?thesis
    proof (cases "m < 10")
      case True
      with n "1.prems" show ?thesis
        by (simp add: str_nat.simps [of n] str_nat.simps [of m] str_nat_not_Nil)
    next
      case False
      with n "1.prems" have "str_nat (n div 10) = str_nat (m div 10)"
        and "digit_char (n mod 10) = digit_char (m mod 10)"
        by (simp_all add: str_nat.simps [of n] str_nat.simps [of m])
      with n "1.IH" have "n div 10 = m div 10" and "n mod 10 = m mod 10"
        by (auto intro: digit_char_inj)
      then show ?thesis
        by (metis div_mult_mod_eq)
    qed
  qed
qed

lemma str_nat_no_slash: "CHR ''/'' \<notin> set (str_nat n)"
proof (induction n rule: str_nat.induct)
  case (1 n)
  then show ?case
    by (subst str_nat.simps) (auto simp: digit_char_not_slash)
qed

subsection \<open>Names of the page files\<close>

lemma join_relative: "\<not> prefix ''/'' b \<Longrightarrow> join a b = join a [] @ b"
  by (simp add: join_def)

lemma join_Nil_cases: "join a [] = [] \<or> (\<exists>a'. join a [] = a' @ ''/'')"
proof (cases "a = [] \<or> last a \<noteq> CHR ''/''")
  case True
  then show ?thesis by (auto simp: join_def)
next
  case False
  then have "a = butlast a @ ''/''"
    using append_butlast_last_id [of a] by simp
  with False show ?thesis by (auto simp: join_def)
qed

lemma page_file_eq: "page_file d n ext = join d [] @ ''page_'' @ str_nat n @ ext"
proof -
  have "\<not> prefix ''/'' (''page_'' @ str_nat n @ ext)" by simp
  then show ?thesis
    unfolding page_file_def by (rule join_relative)
qed

lemma in_dir_page_file: "in_dir d (page_file d n ext)"
  by (simp add: in_dir_def page_file_eq)

lemma page_txt_inj: "page_file d n ''.txt'' = page_file d m ''.txt'' \<Longrightarrow> n = m"
  by (auto simp: page_file_eq dest: str_nat_inj)

lemma page_png_not_txt: "page_file d n ''.png'' \<noteq> page_file d m ''.txt''"
proof
  assume "page_file d n ''.png'' = page_file d m ''.txt''"
  then have "str_nat n @ ''.png'' = str_nat m @ ''.txt''"
    by (simp add: page_file_eq)
  then have "last (str_nat n @ ''.png'') = last (str_nat m @ ''.txt'')"
    by simp
  then show False by simp
qed

lemma basename_no_sep: "CHR ''/'' \<notin> set name \<Longrightarrow> basename name = name"
  by (simp add: basename_def rfind_def)

lemma basename_after_sep: "CHR ''/'' \<notin> set name \<Longrightarrow> basename (a @ ''/'' @ name) = name"
proof -
  assume "CHR ''/'' \<notin> set name"
  then have "rfind CHR ''/'' (a @ ''/'' @ name) = int (length a)"
    using rfind_last_occurrence [of "CHR ''/''" name a] by simp
  then have "nat (rfind CHR ''/'' (a @ ''/'' @ name) + 1) = Suc (length a)"
    by simp
  then show ?thesis
    unfolding basename_def by simp
qed

lemma basename_page_file:
  assumes "CHR ''/'' \<notin> set ext"
  shows "basename (page_file d n ext) = ''page_'' @ str_nat n @ ext"
proof -
  let ?name = "''page_'' @ str_nat n @ ext"
  have ns: "CHR ''/'' \<notin> set ?name"
    using assms by (simp add: str_nat_no_slash)
  from join_Nil_cases [of d] show ?thesis
  proof
    assume "join d [] = []"
    then have "page_file d n ext = ?name" by (simp add: page_file_eq)
    moreover have "basename ?name = ?name" using ns by (rule basename_no_sep)
    ultimately show ?thesis by (simp only:)
  next
    assume "\<exists>a'. join d [] = a' @ ''/''"
    then obtain a' where "join d [] = a' @ ''/''" ..
    then have "page_file d n ext = a' @ ''/'' @ ?name" by (simp add: page_file_eq)
    moreover have "basename (a' @ ''/'' @ ?name) = ?name" using ns by (rule basename_after_sep)
    ultimately show ?thesis by (simp only:)
  qed
qed

section \<open>The page loop\<close>

lemma zip_entries_all:
  "map fs paths = map Some cs \<Longrightarrow> \<forall>name c. fault name c = None \<Longrightarrow>
     zip_entries fault fs paths acc = (Inr (), acc @ zip (map basename paths) cs)"
proof (induction paths arbitrary: acc cs)
  case Nil
  then show ?case by simp
next
  case (Cons p paths)
  then obtain c cs' where cs: "cs = c # cs'" by (cases cs) auto
  with Cons.prems have "fs p = Some c" and "map fs paths = map Some cs'" by auto
  with Cons.IH [of cs' "acc @ [(basename p, c)]"] Cons.prems(2) show ?case
    by (simp add: cs)
qed

text \<open>One round of the loop, when the page goes through.\<close>

lemma page_loop_step:
  assumes "page_text L r img = Inr t"
    and "writable w (page_file d (Suc i) ''.png'')"
    and "writable w (page_file d (Suc i) ''.txt'')"
  shows "\<exists>b. png_encode L r img = Inr b \<and>
           page_loop L r d n i (img # rest) tfs w =
           page_loop L r d n (Suc i) rest (tfs @ [page_file d (Suc i) ''.txt''])
             ((py_print (''Processing page '' @ str_nat (Suc i) @ ''/'' @ str_nat n) w)
                \<lparr>files := (files w)(page_file d (Suc i) ''.png'' \<mapsto> Blob b,
                                      page_file d (Suc i) ''.txt'' \<mapsto> Text t)\<rparr>)"
proof -
  from assms(1) obtain b c where b: "png_encode L r img = Inr b"
    and c: "clean_and_deskew L r (\<lambda>p. Some (Blob b)) [] = Inr c"
    and t: "image_to_string L r c = Inr t"
    by (auto simp: page_text_def split: sum.splits)
  have "clean_and_deskew L r ((files w)(page_file d (Suc i) ''.png'' \<mapsto> Blob b))
          (page_file d (Suc i) ''.png'') = Inr c"
    using c clean_and_deskew_cong [of "(files w)(page_file d (Suc i) ''.png'' \<mapsto> Blob b)"
        "page_file d (Suc i) ''.png''" "\<lambda>p. Some (Blob b)" "[]" L r]
    by simp
  with b t assms(2,3) show ?thesis
    by (simp add: save_def write_file_def py_print_def Let_def)
qed

text \<open>One round of the loop, read backwards from a successful run.\<close>

lemma page_loop_step_back:
  assumes "page_loop L r d n i (img # rest) tfs w = (Inr tfs', w')"
  shows "\<exists>b t. png_encode L r img = Inr b \<and> page_text L r img = Inr t \<and>
           page_loop L r d n (Suc i) rest (tfs @ [page_file d (Suc i) ''.txt''])
             ((py_print (''Processing page '' @ str_nat (Suc i) @ ''/'' @ str_nat n) w)
                \<lparr>files := (files w)(page_file d (Suc i) ''.png'' \<mapsto> Blob b,
                                      page_file d (Suc i) ''.txt'' \<mapsto> Text t)\<rparr>)
           = (Inr tfs', w')"
proof -
  let ?png = "page_file d (Suc i) ''.png''"
  let ?w1 = "py_print (''Processing page '' @ str_nat (Suc i) @ ''/'' @ str_nat n) w"
  from assms obtain b where b: "png_encode L r img = Inr b" and wp: "writable w ?png"
    by (auto simp: save_def Let_def split: if_splits sum.splits prod.splits)
  let ?w2 = "?w1\<lparr>files := (files w)(?png \<mapsto> Blob b)\<rparr>"
  have s: "save L r img ?png ?w1 = (Inr (), ?w2)"
    using b wp by (simp add: save_def)
  from assms s obtain c where c: "clean_and_deskew L r (files ?w2) ?png = Inr c"
    by (auto simp: Let_def split: sum.splits prod.splits)
  from assms s c obtain t where t: "image_to_string L r c = Inr t"
    by (auto simp: Let_def split: sum.splits prod.splits)
  have "clean_and_deskew L r (\<lambda>p. Some (Blob b)) [] = Inr c"
    using c clean_and_deskew_cong [of "files ?w2" ?png "\<lambda>p. Some (Blob b)" "[]" L r]
    by simp
  with b t have pt: "page_text L r img = Inr t"
    by (simp add: page_text_def)
  from assms s c t show ?thesis
    using b pt
    by (auto simp: write_file_def py_print_def Let_def split: if_splits sum.splits prod.splits)
qed

lemma page_txts_0 [simp]: "page_txts d i 0 = []"
  by (simp add: page_txts_def)

lemma page_txts_Suc: "page_txts d i (Suc k) = page_file d (Suc i) ''.txt'' # page_txts d (Suc i) k"
proof -
  have "[Suc i..<Suc i + Suc k] = Suc i # [Suc (Suc i)..<Suc (Suc i) + k]"
    by (simp add: upt_rec [of "Suc i"])
  then show ?thesis
    by (simp only: page_txts_def list.map)
qed

lemma length_page_txts [simp]: "length (page_txts d i k) = k"
  by (simp add: page_txts_def)

lemma page_txts_in_dir: "p \<in> set (page_txts d i k) \<Longrightarrow> in_dir d p"
  by (auto simp: page_txts_def in_dir_page_file)

lemma basename_page_txts:
  "map basename (page_txts d i k) = map (\<lambda>j. ''page_'' @ str_nat j @ ''.txt'') [Suc i..<Suc i + k]"
  by (simp add: page_txts_def basename_page_file del: append.simps)

lemma not_in_dir_page_file: "\<not> in_dir d p \<Longrightarrow> p \<noteq> page_file d k ext"
  using in_dir_page_file by blast

text \<open>The loop touches no file outside the temporary directory, however it ends.\<close>

lemma page_loop_outside:
  "page_loop L r d n i imgs tfs w = (res, w') \<Longrightarrow>
     (\<forall>p. \<not> in_dir d p \<longrightarrow> files w' p = files w p) \<and> writable w' = writable w
       \<and> zip_fault w' = zip_fault w"
proof (induction imgs arbitrary: i tfs w)
  case Nil
  then show ?case by simp
next
  case (Cons img rest)
  let ?png = "page_file d (Suc i) ''.png''"
  let ?txt = "page_file d (Suc i) ''.txt''"
  let ?w1 = "py_print (''Processing page '' @ str_nat (Suc i) @ ''/'' @ str_nat n) w"
  obtain sres w2 where s: "save L r img ?png ?w1 = (sres, w2)"
    by (cases "save L r img ?png ?w1")
  have w2: "(\<forall>p. \<not> in_dir d p \<longrightarrow> files w2 p = files w p) \<and> writable w2 = writable w
      \<and> zip_fault w2 = zip_fault w"
    using s by (auto simp: save_def not_in_dir_page_file split: if_splits sum.splits)
  show ?case
  proof (cases sres)
    case (Inl e)
    with Cons.prems s w2 show ?thesis by (simp add: Let_def)
  next
    case sr: (Inr u)
    show ?thesis
    proof (cases "clean_and_deskew L r (files w2) ?png")
      case (Inl e)
      with Cons.prems s sr w2 show ?thesis by (simp add: Let_def)
    next
      case c: (Inr cleaned)
      show ?thesis
      proof (cases "image_to_string L r cleaned")
        case (Inl e)
        with Cons.prems s sr c w2 show ?thesis by (simp add: Let_def)
      next
        case t: (Inr ocr_text)
        show ?thesis
        proof (cases "writable w2 ?txt")
          case False
          with Cons.prems s sr c t w2 show ?thesis
            by (simp add: Let_def write_file_def)
        next
          case True
          let ?w3 = "w2\<lparr>files := (files w2)(?txt \<mapsto> Text ocr_text)\<rparr>"
          from Cons.prems s sr c t True
          have "page_loop L r d n (Suc i) rest (tfs @ [?txt]) ?w3 = (res, w')"
            by (simp add: Let_def write_file_def)
          from Cons.IH [OF this] w2 show ?thesis
            by (simp add: not_in_dir_page_file)
        qed
      qed
    qed
  qed
qed

text \<open>What a successful run of the loop has done.\<close>

lemma page_loop_Inr:
  "page_loop L r d n i imgs tfs w = (Inr tfs', w') \<Longrightarrow>
     \<exists>texts. map (page_text L r) imgs = map Inr texts
       \<and> tfs' = tfs @ page_txts d i (length imgs)
       \<and> map (files w') (page_txts d i (length imgs)) = map (\<lambda>t. Some (Text t)) texts
       \<and> (\<forall>k\<le>i. files w' (page_file d k ''.txt'') = files w (page_file d k ''.txt''))"
proof (induction imgs arbitrary: i tfs w)
  case Nil
  then show ?case by simp
next
  case (Cons img rest)
  let ?png = "page_file d (Suc i) ''.png''"
  let ?txt = "page_file d (Suc i) ''.txt''"
  let ?line = "''Processing page '' @ str_nat (Suc i) @ ''/'' @ str_nat n"
  from page_loop_step_back [OF Cons.prems] obtain b t
    where pt: "page_text L r img = Inr t"
      and rec: "page_loop L r d n (Suc i) rest (tfs @ [?txt])
                  ((py_print ?line w)\<lparr>files := (files w)(?png \<mapsto> Blob b, ?txt \<mapsto> Text t)\<rparr>)
                = (Inr tfs', w')"
    by blast
  from Cons.IH [OF rec] obtain texts
    where ts: "map (page_text L r) rest = map Inr texts"
      and tfs': "tfs' = (tfs @ [?txt]) @ page_txts d (Suc i) (length rest)"
      and fs: "map (files w') (page_txts d (Suc i) (length rest)) = map (\<lambda>t. Some (Text t)) texts"
      and old: "\<forall>k\<le>Suc i. files w' (page_file d k ''.txt'') =
                  ((files w)(?png \<mapsto> Blob b, ?txt \<mapsto> Text t)) (page_file d k ''.txt'')"
    by auto
  have here: "files w' ?txt = Some (Text t)"
    using old by simp
  have before: "\<forall>k\<le>i. files w' (page_file d k ''.txt'') = files w (page_file d k ''.txt'')"
  proof (intro allI impI)
    fix k assume k: "k \<le> i"
    then have "page_file d k ''.txt'' \<noteq> ?txt"
      using page_txt_inj [of d k "Suc i"] by auto
    moreover have "page_file d k ''.txt'' \<noteq> ?png"
      using page_png_not_txt [of d "Suc i" k] by auto
    ultimately show "files w' (page_file d k ''.txt'') = files w (page_file d k ''.txt'')"
      using old k by simp
  qed
  show ?case
    by (rule exI [of _ "t # texts"]) (simp add: pt ts tfs' fs here before page_txts_Suc)
qed

text \<open>The loop goes through when every page does and the temporary directory is writable.\<close>

lemma page_loop_total:
  "map (page_text L r) imgs = map Inr texts \<Longrightarrow> \<forall>p. in_dir d p \<longrightarrow> writable w p \<Longrightarrow>
     \<exists>tfs' w'. page_loop L r d n i imgs tfs w = (Inr tfs', w')"
proof (induction imgs arbitrary: i tfs w texts)
  case Nil
  then show ?case by simp
next
  case (Cons img rest)
  then obtain t ts where texts: "texts = t # ts" by (cases texts) auto
  with Cons.prems have pt: "page_text L r img = Inr t"
    and rest: "map (page_text L r) rest = map Inr ts" by auto
  from page_loop_step [OF pt, of w d i n rest tfs] Cons.prems(2) obtain b where
    step: "page_loop L r d n i (img # rest) tfs w =
           page_loop L r d n (Suc i) rest (tfs @ [page_file d (Suc i) ''.txt''])
             ((py_print (''Processing page '' @ str_nat (Suc i) @ ''/'' @ str_nat n) w)
                \<lparr>files := (files w)(page_file d (Suc i) ''.png'' \<mapsto> Blob b,
                                      page_file d (Suc i) ''.txt'' \<mapsto> Text t)\<rparr>)"
    using in_dir_page_file by blast
  show ?case
    unfolding step using Cons.prems(2) by (intro Cons.IH [OF rest]) simp
qed

lemma create_zip_existing:
  assumes "map (files w) paths = map Some cs" and "out \<notin> set paths"
    and "\<forall>name c. zip_fault w out name c = None"
  shows "create_zip paths out w =
           (if writable w out
            then (Inr (), w\<lparr>files := (files w)(out \<mapsto> Archive (zip (map basename paths) cs))\<rparr>)
            else (Inl (OSError ''cannot open for writing''), w))"
proof -
  have "map ((files w)(out \<mapsto> Archive [])) paths = map Some cs"
    using assms(1,2) by (metis (mono_tags, lifting) fun_upd_other map_eq_conv)
  from zip_entries_all [OF this assms(3), of "[]"] show ?thesis
    by (simp add: create_zip_def)
qed

section \<open>The archive of a run\<close>

lemma basename_page_txts_0: "map basename (page_txts d 0 n) = entry_names n"
  by (simp add: basename_page_txts entry_names_def del: append.simps)

lemma length_entry_names [simp]: "length (entry_names n) = n"
  by (simp add: entry_names_def)

lemma distinct_entry_names: "distinct (entry_names n)"
  unfolding entry_names_def
  by (rule distinct_map [THEN iffD2]) (auto simp: inj_on_def dest: str_nat_inj)

lemma entry_names_nth: "i < n \<Longrightarrow> entry_names n ! i = ''page_'' @ str_nat (Suc i) @ ''.txt''"
  unfolding entry_names_def by (simp del: append.simps upt_Suc)

lemma map_of_zip_nth:
  "length xs = length ys \<Longrightarrow> distinct xs \<Longrightarrow> i < length ys \<Longrightarrow>
     map_of (zip xs ys) (xs ! i) = Some (ys ! i)"
proof (induction xs ys arbitrary: i rule: list_induct2)
  case Nil
  then show ?case by simp
next
  case (Cons x xs y ys)
  then show ?case by (cases i) auto
qed

text \<open>A run in which every page goes through.\<close>

lemma process_pdf_success:
  assumes conv: "convert_from_path L r (files w) (Some pdf) = Inr images"
    and pages: "map (page_text L r) images = map Inr texts"
    and tmp: "\<forall>p. in_dir d p \<longrightarrow> writable w p"
    and outw: "writable w out"
    and nofault: "\<forall>name c. zip_fault w out name c = None"
    and outd: "\<not> in_dir d out"
  shows "fst (process_pdf L r d pdf out w) = Inr ()"
    and "files (snd (process_pdf L r d pdf out w)) out =
           Some (Archive (zip (entry_names (length images)) (map Text texts)))"
proof -
  let ?w1 = "py_print (''Converting PDF: '' @ pdf) w"
  let ?n = "length images"
  from tmp have "\<forall>p. in_dir d p \<longrightarrow> writable ?w1 p" by simp
  from page_loop_total [OF pages this] obtain tfs' w2
    where loop: "page_loop L r d ?n 0 images [] ?w1 = (Inr tfs', w2)" by blast
  from page_loop_Inr [OF loop] obtain texts'
    where "map (page_text L r) images = map Inr texts'"
      and tfs': "tfs' = page_txts d 0 ?n"
      and fs: "map (files w2) (page_txts d 0 ?n) = map (\<lambda>t. Some (Text t)) texts'"
    by auto
  with pages have "map Inr texts' = (map Inr texts :: (exn + string) list)" by simp
  then have "texts' = texts" by (simp add: inj_map_eq_map)
  with fs have ex: "map (files w2) tfs' = map Some (map Text texts)"
    by (simp add: tfs' comp_def)
  have notin: "out \<notin> set tfs'"
    using outd page_txts_in_dir tfs' by blast
  from page_loop_outside [OF loop] outw nofault have w2w: "writable w2 out"
    and nf2: "\<forall>name c. zip_fault w2 out name c = None" by simp_all
  have z: "create_zip tfs' out w2 =
             (Inr (), w2\<lparr>files := (files w2)(out \<mapsto> Archive (zip (entry_names ?n) (map Text texts)))\<rparr>)"
    using create_zip_existing [OF ex notin nf2] w2w
    by (simp add: tfs' basename_page_txts_0)
  have p: "process_pdf L r d pdf out w =
        (Inr (), py_print (''OCR processing complete. Results saved to '' @ out)
               (cleanup d (w2\<lparr>files := (files w2)(out \<mapsto> Archive (zip (entry_names ?n) (map Text texts)))\<rparr>)))"
    using conv loop z by (simp add: process_pdf_def)
  show "fst (process_pdf L r d pdf out w) = Inr ()"
    by (simp add: p)
  show "files (snd (process_pdf L r d pdf out w)) out =
           Some (Archive (zip (entry_names (length images)) (map Text texts)))"
    using outd by (simp add: p files_cleanup)
qed

text \<open>As long as no write into the archive fails, a run either fails and leaves the files
  outside the temporary directory as they were, or succeeds with every page in the
  archive.\<close>

lemma process_pdf_cases:
  assumes outd: "\<not> in_dir d out"
    and nofault: "\<forall>name c. zip_fault w out name c = None"
  shows "(\<exists>e. fst (process_pdf L r d pdf out w) = Inl e \<and>
              (\<forall>p. \<not> in_dir d p \<longrightarrow> files (snd (process_pdf L r d pdf out w)) p = files w p))
       \<or> (fst (process_pdf L r d pdf out w) = Inr () \<and>
          (\<exists>images texts.
              convert_from_path L r (files w) (Some pdf) = Inr images \<and>
              map (page_text L r) images = map Inr texts \<and>
              files (snd (process_pdf L r d pdf out w)) out =
                Some (Archive (zip (entry_names (length images)) (map Text texts)))))"
proof (cases "convert_from_path L r (files w) (Some pdf)")
  case (Inl e)
  then show ?thesis
    by (simp add: process_pdf_def files_cleanup)
next
  case conv: (Inr images)
  let ?w1 = "py_print (''Converting PDF: '' @ pdf) w"
  let ?n = "length images"
  obtain res w2 where loop: "page_loop L r d ?n 0 images [] ?w1 = (res, w2)"
    by (cases "page_loop L r d ?n 0 images [] ?w1")
  from page_loop_outside [OF loop]
  have out2: "\<forall>p. \<not> in_dir d p \<longrightarrow> files w2 p = files w p" and wr2: "writable w2 = writable w"
    and zf2: "zip_fault w2 = zip_fault w"
    by simp_all
  from zf2 nofault have nf2: "\<forall>name c. zip_fault w2 out name c = None" by simp
  show ?thesis
  proof (cases res)
    case (Inl e)
    with conv loop out2 show ?thesis
      by (simp add: process_pdf_def files_cleanup)
  next
    case (Inr tfs')
    with loop have loop': "page_loop L r d ?n 0 images [] ?w1 = (Inr tfs', w2)" by simp
    from page_loop_Inr [OF loop'] obtain texts
      where pages: "map (page_text L r) images = map Inr texts"
        and tfs': "tfs' = page_txts d 0 ?n"
        and fs: "map (files w2) (page_txts d 0 ?n) = map (\<lambda>t. Some (Text t)) texts"
      by auto
    from fs have ex: "map (files w2) tfs' = map Some (map Text texts)"
      by (simp add: tfs' comp_def)
    have notin: "out \<notin> set tfs'"
      using outd page_txts_in_dir tfs' by blast
    note z = create_zip_existing [OF ex notin nf2]
    show ?thesis
    proof (cases "writable w2 out")
      case True
      with conv loop' z outd pages show ?thesis
        by (simp add: process_pdf_def files_cleanup tfs' basename_page_txts_0)
    next
      case False
      with conv loop' z out2 show ?thesis
        by (simp add: process_pdf_def files_cleanup)
    qed
  qed
qed

lemma demo_page_texts:
  "map (page_text demo_lib True) [(- 10, ''first''), (0, []), (- 60, ''third'')]
     = map Inr [''first'', [], ''third'']"
  by (simp add: page_text_def clean_and_deskew_def deskew_def rotate_if_significant_def
      adjust_angle_def demo_lib_def)

lemma demo_convert:
  "convert_from_path demo_lib True (files demo_world) (Some ''doc.pdf'')
     = Inr [(- 10, ''first''), (0, []), (- 60, ''third'')]"
  by (simp add: demo_lib_def demo_world_def)

lemma demo_out_not_in_temp: "\<not> in_dir ''/tmp/t'' ''doc_ocr.zip''"
  by (simp add: in_dir_def join_def)

lemma entry_names_3: "entry_names 3 = [''page_1.txt'', ''page_2.txt'', ''page_3.txt'']"
  by code_simp

text \<open>
  Claim C6: for a PDF of \<open>N\<close> pages that all go through (with a writable temporary
  directory, a writable output path outside it and no failing write into the archive),
  the run succeeds and the archive
  holds exactly \<open>N\<close> text entries, the \<open>k\<close>-th of them the text of the \<open>k\<close>-th page
  of the document.
\<close>

theorem archive_pages_in_order:
  assumes "convert_from_path L r (files w) (Some pdf_path) = Inr images"
    and "map (page_text L r) images = map Inr texts"
    and "\<forall>p. in_dir temp_dir p \<longrightarrow> writable w p"
    and "writable w output_zip_path"
    and "\<forall>name c. zip_fault w output_zip_path name c = None"
    and "\<not> in_dir temp_dir output_zip_path"
  shows "\<exists>entries.
           fst (process_pdf L r temp_dir pdf_path output_zip_path w) = Inr ()
         \<and> files (snd (process_pdf L r temp_dir pdf_path output_zip_path w)) output_zip_path
             = Some (Archive entries)
         \<and> length entries = length images
         \<and> map snd entries = map Text texts"
proof -
  from assms(2) have len: "length images = length texts"
    by (rule map_eq_imp_length_eq)
  show ?thesis
    using process_pdf_success [OF assms] len
    by (intro exI [of _ "zip (entry_names (length images)) (map Text texts)"]) simp
qed

text \<open>C6 on a three-page PDF whose second page is blank.\<close>

theorem archive_pages_in_order_witness:
  "\<exists>entries.
      fst (process_pdf demo_lib True ''/tmp/t'' ''doc.pdf'' ''doc_ocr.zip'' demo_world) = Inr ()
    \<and> files (snd (process_pdf demo_lib True ''/tmp/t'' ''doc.pdf'' ''doc_ocr.zip'' demo_world))
        ''doc_ocr.zip'' = Some (Archive entries)
    \<and> length entries = 3
    \<and> map snd entries = [Text ''first'', Text [], Text ''third'']"
proof -
  have w: "\<forall>p. in_dir ''/tmp/t'' p \<longrightarrow> writable demo_world p" "writable demo_world ''doc_ocr.zip''"
    "\<forall>name c. zip_fault demo_world ''doc_ocr.zip'' name c = None"
    by (simp_all add: demo_world_def)
  from archive_pages_in_order [OF demo_convert demo_page_texts w demo_out_not_in_temp]
  show ?thesis by (simp add: numeral_3_eq_3)
qed

text \<open>
  Claim C10: entry names are one-based. For an \<open>N\<close>-page input that goes through, the
  entries are named \<open>page_1.txt\<close> to \<open>page_N.txt\<close> in this order, and looking up
  \<open>page_i.txt\<close> in the archive gives the text of the \<open>i\<close>-th page.
\<close>

theorem archive_entry_names:
  assumes "convert_from_path L r (files w) (Some pdf_path) = Inr images"
    and "map (page_text L r) images = map Inr texts"
    and "\<forall>p. in_dir temp_dir p \<longrightarrow> writable w p"
    and "writable w output_zip_path"
    and "\<forall>name c. zip_fault w output_zip_path name c = None"
    and "\<not> in_dir temp_dir output_zip_path"
  shows "\<exists>entries.
           files (snd (process_pdf L r temp_dir pdf_path output_zip_path w)) output_zip_path
             = Some (Archive entries)
         \<and> map fst entries = entry_names (length images)
         \<and> (\<forall>i. 1 \<le> i \<and> i \<le> length images \<longrightarrow>
               map_of entries (''page_'' @ str_nat i @ ''.txt'') = Some (Text (texts ! (i - 1))))"
proof -
  let ?n = "length images"
  let ?entries = "zip (entry_names ?n) (map Text texts)"
  from assms(2) have len: "?n = length texts"
    by (rule map_eq_imp_length_eq)
  have look: "map_of ?entries (''page_'' @ str_nat i @ ''.txt'') = Some (Text (texts ! (i - 1)))"
    if "1 \<le> i" "i \<le> ?n" for i
  proof -
    from that have i: "i - 1 < ?n" "Suc (i - 1) = i" by simp_all
    have "map_of ?entries (entry_names ?n ! (i - 1)) = Some (map Text texts ! (i - 1))"
      using i(1) len by (intro map_of_zip_nth) (simp_all add: distinct_entry_names)
    then show ?thesis
      using i len entry_names_nth [of "i - 1" ?n] by simp
  qed
  show ?thesis
    using process_pdf_success(2) [OF assms] len look
    by (intro exI [of _ ?entries]) auto
qed

text \<open>C10 on the three-page PDF: the names, and the entry of the blank second page.\<close>

theorem archive_entry_names_witness:
  "\<exists>entries.
      files (snd (process_pdf demo_lib True ''/tmp/t'' ''doc.pdf'' ''doc_ocr.zip'' demo_world))
        ''doc_ocr.zip'' = Some (Archive entries)
    \<and> map fst entries = [''page_1.txt'', ''page_2.txt'', ''page_3.txt'']
    \<and> map_of entries (''page_'' @ str_nat 2 @ ''.txt'') = Some (Text [])"
proof -
  have w: "\<forall>p. in_dir ''/tmp/t'' p \<longrightarrow> writable demo_world p" "writable demo_world ''doc_ocr.zip''"
    "\<forall>name c. zip_fault demo_world ''doc_ocr.zip'' name c = None"
    by (simp_all add: demo_world_def)
  let ?imgs = "[(- 10, ''first''), (0, []), (- 60, ''third'')] :: demo_img list"
  from archive_entry_names [OF demo_convert demo_page_texts w demo_out_not_in_temp]
  obtain entries where
    e1: "files (snd (process_pdf demo_lib True ''/tmp/t'' ''doc.pdf'' ''doc_ocr.zip'' demo_world))
          ''doc_ocr.zip'' = Some (Archive entries)"
    and e2: "map fst entries = entry_names (length ?imgs)"
    and e3: "\<forall>i. 1 \<le> i \<and> i \<le> length ?imgs \<longrightarrow>
          map_of entries (''page_'' @ str_nat i @ ''.txt'')
            = Some (Text ([''first'', [], ''third''] ! (i - 1)))"
    by blast
  have n3: "length ?imgs = 3" by simp
  from e3 have "1 \<le> (2::nat) \<and> 2 \<le> length ?imgs \<longrightarrow>
      map_of entries (''page_'' @ str_nat 2 @ ''.txt'')
        = Some (Text ([''first'', [], ''third''] ! (2 - 1)))"
    by (rule spec)
  then have second: "map_of entries (''page_'' @ str_nat 2 @ ''.txt'') = Some (Text [])"
    by simp
  from e2 have names: "map fst entries = [''page_1.txt'', ''page_2.txt'', ''page_3.txt'']"
    by (simp only: n3 entry_names_3)
  show ?thesis
    by (rule exI [of _ entries]) (intro conjI e1 names second)
qed

text \<open>
  Claim C7 says that a failure at any page aborts the run and persists nothing, so that
  either every page is processed and archived or no output archive is produced. The
  archive is written entry by entry into the file at the output path: when the disk is
  full at the second entry, every page has been processed, the run fails, and the output
  path holds an archive with the first page only.
\<close>

theorem archive_write_failure_counterexample:
  "fst (process_pdf demo_lib True ''/tmp/t'' ''doc.pdf'' ''out.zip'' full_disk_world)
     = Inl (OSError ''No space left on device'')
   \<and> files full_disk_world ''out.zip'' = None
   \<and> files (snd (process_pdf demo_lib True ''/tmp/t'' ''doc.pdf'' ''out.zip'' full_disk_world))
       ''out.zip'' = Some (Archive [(''page_1.txt'', Text ''first'')])"
  by code_simp

text \<open>
  Claim C7, amended: with the output path outside the temporary directory, when the
  conversion fails or some page fails (encoding, cleaning or OCR), the run aborts and
  every file outside the temporary directory, the output path among them, is as it was;
  and as long as no write into the archive fails, every run either aborts with these
  files as they were or succeeds with every page in the archive.
\<close>

theorem page_failure_persists_nothing:
  assumes "\<not> in_dir temp_dir output_zip_path"
  shows "((isl (convert_from_path L r (files w) (Some pdf_path)) \<or>
            (\<exists>images. convert_from_path L r (files w) (Some pdf_path) = Inr images \<and>
               (\<exists>img \<in> set images. isl (page_text L r img))))
          \<longrightarrow> isl (fst (process_pdf L r temp_dir pdf_path output_zip_path w)) \<and>
              (\<forall>p. \<not> in_dir temp_dir p \<longrightarrow>
                  files (snd (process_pdf L r temp_dir pdf_path output_zip_path w)) p = files w p))
       \<and> ((\<forall>name c. zip_fault w output_zip_path name c = None) \<longrightarrow>
            (\<exists>e. fst (process_pdf L r temp_dir pdf_path output_zip_path w) = Inl e \<and>
              (\<forall>p. \<not> in_dir temp_dir p \<longrightarrow>
                  files (snd (process_pdf L r temp_dir pdf_path output_zip_path w)) p = files w p))
          \<or> (fst (process_pdf L r temp_dir pdf_path output_zip_path w) = Inr () \<and>
             (\<exists>images texts.
                 convert_from_path L r (files w) (Some pdf_path) = Inr images \<and>
                 map (page_text L r) images = map Inr texts \<and>
                 files (snd (process_pdf L r temp_dir pdf_path output_zip_path w)) output_zip_path =
                   Some (Archive (zip (entry_names (length images)) (map Text texts))))))"
proof (intro conjI impI)
  assume "\<forall>name c. zip_fault w output_zip_path name c = None"
  from process_pdf_cases [OF assms this]
  show "(\<exists>e. fst (process_pdf L r temp_dir pdf_path output_zip_path w) = Inl e \<and>
              (\<forall>p. \<not> in_dir temp_dir p \<longrightarrow>
                  files (snd (process_pdf L r temp_dir pdf_path output_zip_path w)) p = files w p))
          \<or> (fst (process_pdf L r temp_dir pdf_path output_zip_path w) = Inr () \<and>
             (\<exists>images texts.
                 convert_from_path L r (files w) (Some pdf_path) = Inr images \<and>
                 map (page_text L r) images = map Inr texts \<and>
                 files (snd (process_pdf L r temp_dir pdf_path output_zip_path w)) output_zip_path =
                   Some (Archive (zip (entry_names (length images)) (map Text texts)))))" .
next
  assume fail: "isl (convert_from_path L r (files w) (Some pdf_path)) \<or>
            (\<exists>images. convert_from_path L r (files w) (Some pdf_path) = Inr images \<and>
               (\<exists>img \<in> set images. isl (page_text L r img)))"
  have "isl (fst (process_pdf L r temp_dir pdf_path output_zip_path w)) \<and>
        (\<forall>p. \<not> in_dir temp_dir p \<longrightarrow>
            files (snd (process_pdf L r temp_dir pdf_path output_zip_path w)) p = files w p)"
  proof (cases "convert_from_path L r (files w) (Some pdf_path)")
    case (Inl e)
    then show ?thesis
      by (simp add: process_pdf_def files_cleanup)
  next
    case conv: (Inr images)
    let ?w1 = "py_print (''Converting PDF: '' @ pdf_path) w"
    obtain res w2 where loop: "page_loop L r temp_dir (length images) 0 images [] ?w1 = (res, w2)"
      by (cases "page_loop L r temp_dir (length images) 0 images [] ?w1")
    from page_loop_outside [OF loop]
    have out2: "\<forall>p. \<not> in_dir temp_dir p \<longrightarrow> files w2 p = files w p"
      by simp
    from fail conv obtain img where img: "img \<in> set images" "isl (page_text L r img)"
      by auto
    have "isl res"
    proof (rule ccontr)
      assume "\<not> isl res"
      then obtain tfs' where "res = Inr tfs'" by (cases res) auto
      with loop have "page_loop L r temp_dir (length images) 0 images [] ?w1 = (Inr tfs', w2)"
        by simp
      from page_loop_Inr [OF this] obtain texts
        where m: "map (page_text L r) images = map Inr texts" by blast
      from img(1) have "page_text L r img \<in> set (map (page_text L r) images)" by simp
      with m have "page_text L r img \<in> Inr ` set texts" by simp
      with img(2) show False by auto
    qed
    then obtain e where "res = Inl e" by (cases res) auto
    with conv loop out2 show ?thesis
      by (simp add: process_pdf_def files_cleanup)
  qed
  then show "isl (fst (process_pdf L r temp_dir pdf_path output_zip_path w))"
    and "\<forall>p. \<not> in_dir temp_dir p \<longrightarrow>
            files (snd (process_pdf L r temp_dir pdf_path output_zip_path w)) p = files w p"
    by simp_all
qed

text \<open>The amended C7 on a PDF whose second page makes the OCR engine fail.\<close>

theorem page_failure_persists_nothing_witness:
  "(\<forall>name c. zip_fault bad_page_world ''out.zip'' name c = None)
   \<and> isl (fst (process_pdf demo_lib True ''/tmp/t'' ''bad.pdf'' ''out.zip'' bad_page_world))
   \<and> files (snd (process_pdf demo_lib True ''/tmp/t'' ''bad.pdf'' ''out.zip'' bad_page_world))
       ''out.zip'' = None"
proof -
  have d: "\<not> in_dir ''/tmp/t'' ''out.zip''"
    by (simp add: in_dir_def join_def)
  have c: "convert_from_path demo_lib True (files bad_page_world) (Some ''bad.pdf'')
             = Inr [(0, ''fine''), (2, ''#''), (0, ''never reached'')]"
    by (simp add: demo_lib_def bad_page_world_def)
  have p: "isl (page_text demo_lib True (2, ''#''))"
    by (simp add: page_text_def clean_and_deskew_def deskew_def rotate_if_significant_def
        adjust_angle_def demo_lib_def)
  have n: "files bad_page_world ''out.zip'' = None"
    and z: "\<forall>name c. zip_fault bad_page_world ''out.zip'' name c = None"
    by (simp_all add: bad_page_world_def)
  from page_failure_persists_nothing [OF d, of demo_lib True bad_page_world "''bad.pdf''"] c p n d z
  show ?thesis by simp
qed

end
